theory Spec2Isabelle
  imports Main "HOL-Library.Word"
begin

unbundle bit_operations_syntax

section \<open>Common types\<close>

text \<open>
  The sources are \<^verbatim>\<open>helicopter.h\<close> (class \<^verbatim>\<open>Helicopter\<close>) and the body of
  \<^verbatim>\<open>pizza.cpp\<close> (classes \<^verbatim>\<open>Pizza\<close> and \<^verbatim>\<open>PizzaMissionState\<close>). The headers that declare
  \<^verbatim>\<open>MxResult\<close>, \<^verbatim>\<open>LegoFile\<close>, \<^verbatim>\<open>PizzaMissionState::Entry\<close>, the game-state registry,
  the world and the tickle manager are not among them.

  An object is identified by an address; a pointer is an address or \<^verbatim>\<open>NULL\<close>
  (\<open>None\<close>). \<^verbatim>\<open>MxLong\<close> and \<^verbatim>\<open>MxResult\<close> values are only returned and compared with
  \<^verbatim>\<open>SUCCESS\<close> here, never computed with, so they are integers.
\<close>

type_synonym addr = nat
type_synonym MxU8 = "8 word"
type_synonym MxU32 = "32 word"
type_synonym MxLong = int
type_synonym MxResult = int

definition SUCCESS :: MxResult where
  \<comment> \<open>The macro is defined outside the sources at hand; only its being one fixed
      result code matters below.\<close>
  "SUCCESS = 0"

section \<open>Helicopter: run-time class names\<close>

text \<open>
  A \<^verbatim>\<open>const char*\<close> argument is modelled by the characters it points to; the end of
  the list stands for the terminating NUL, and a NUL inside the list ends the C string
  early, as it does for \<^verbatim>\<open>strcmp\<close>.
\<close>

definition c_str :: "string \<Rightarrow> string" where
  "c_str s = takeWhile (\<lambda>c. c \<noteq> CHR 0x00) s"

text \<open>
  \<^verbatim>\<open>strcmp\<close> of the C library: the difference of the first pair of characters that
  differ (read as unsigned), 0 when both strings end together.
\<close>

fun strcmp :: "string \<Rightarrow> string \<Rightarrow> int" where
  "strcmp [] [] = 0"
| "strcmp [] (b # bs) = - of_char b"
| "strcmp (a # as) [] = of_char a"
| "strcmp (a # as) (b # bs) =
     (if a \<noteq> b then of_char a - of_char b
      else if a = CHR 0x00 then 0
      else strcmp as bs)"

definition Helicopter_ClassName :: string where
  "Helicopter_ClassName = ''Helicopter''"

text \<open>
  \<^verbatim>\<open>return !strcmp(p_name, Helicopter::ClassName()) || IslePathActor::IsA(p_name);\<close>
  The base class's \<^verbatim>\<open>IsA\<close> is not in the sources: it is the parameter
  \<open>IslePathActor_IsA\<close>.
\<close>

definition Helicopter_IsA :: "(string \<Rightarrow> bool) \<Rightarrow> string \<Rightarrow> bool" where
  "Helicopter_IsA IslePathActor_IsA p_name =
     (strcmp p_name Helicopter_ClassName = 0 \<or> IslePathActor_IsA p_name)"

section \<open>PizzaMissionState: the five entries\<close>

text \<open>
  \<^verbatim>\<open>PizzaMissionState::Entry\<close> is declared in a header that is not among the sources.
  The two members the sources use are kept: \<^verbatim>\<open>m_id\<close>, compared with an \<^verbatim>\<open>MxU8\<close> in
  \<^verbatim>\<open>GetState\<close>, and \<^verbatim>\<open>m_unk0x10\<close>, set to \<^verbatim>\<open>0x80000000\<close> in \<^verbatim>\<open>Pizza::FUN_10038220\<close>.
\<close>

record Entry =
  m_id :: MxU8
  m_unk0x10 :: MxU32

text \<open>
  \<^verbatim>\<open>m_state\<close> is the C array \<^verbatim>\<open>Entry m_state[5]\<close>: a list, of length 5 in every
  object (the hypothesis \<open>length (m_state this) = 5\<close> of the theorems below).
  \<^verbatim>\<open>m_unk0x0c\<close> is the member \<^verbatim>\<open>Pizza::FUN_10038220\<close> sets to 1; the members of the
  base class \<^verbatim>\<open>LegoState\<close> are not kept.
\<close>

record PizzaMissionState =
  m_unk0x0c :: MxU32
  m_state :: "Entry list"

text \<open>
  \<^verbatim>\<open>for (MxS16 i = 0; i < 5; i++) { if (m_state[i].m_id == p_id) return m_state + i; }\<close>
  \<^verbatim>\<open>return NULL;\<close>
  The counter stays within 0..5, so \<^verbatim>\<open>MxS16\<close> never wraps and \<open>i\<close> is a \<open>nat\<close>. The
  pointer \<^verbatim>\<open>m_state + i\<close> is the index \<open>i\<close>. The last argument collects the indices
  at which the loop reads \<^verbatim>\<open>m_state\<close>, in the order of the reads.
\<close>

function GetState_loop ::
  "PizzaMissionState \<Rightarrow> MxU8 \<Rightarrow> nat \<Rightarrow> nat list \<Rightarrow> nat option \<times> nat list" where
  "GetState_loop this p_id i reads =
     (if i < 5 then
        (if m_id (m_state this ! i) = p_id then (Some i, reads @ [i])
         else GetState_loop this p_id (i + 1) (reads @ [i]))
      else (None, reads))"
  by pat_completeness auto
termination
  by (relation "measure (\<lambda>(this, p_id, i, reads). 5 - i)") auto

definition PizzaMissionState_GetState ::
  "PizzaMissionState \<Rightarrow> MxU8 \<Rightarrow> nat option \<times> nat list" where
  "PizzaMissionState_GetState this p_id = GetState_loop this p_id 0 []"

section \<open>PizzaMissionState: serialization\<close>

text \<open>
  Modelled from the spec: \<^verbatim>\<open>LegoFile\<close> (declared outside the sources) is a stream with
  a mode, Read or Write (section 4.3); the source asks \<^verbatim>\<open>IsReadMode()\<close> and then
  \<^verbatim>\<open>IsWriteMode()\<close>, so a file that is in neither mode is a third value. In read mode
  \<open>f_bytes\<close> are the bytes still to be read, in write mode the bytes written so far.
\<close>

datatype LegoFile_mode = ReadMode | WriteMode | OtherMode

record LegoFile =
  f_mode :: LegoFile_mode
  f_bytes :: "MxU8 list"

definition IsReadMode :: "LegoFile \<Rightarrow> bool" where
  "IsReadMode p_file = (f_mode p_file = ReadMode)"

definition IsWriteMode :: "LegoFile \<Rightarrow> bool" where
  "IsWriteMode p_file = (f_mode p_file = WriteMode)"

text \<open>
  \<^verbatim>\<open>for (MxS16 i = 0; i < 5; i++) { m_state[i].ReadFromFile(p_file); }\<close>
  \<^verbatim>\<open>Entry::ReadFromFile\<close> is not in the sources: it is the parameter \<open>ReadFromFile\<close>,
  which is given the entry and the file and returns both as it leaves them.
\<close>

function Serialize_read ::
  "(Entry \<Rightarrow> LegoFile \<Rightarrow> Entry \<times> LegoFile) \<Rightarrow> nat \<Rightarrow> PizzaMissionState \<Rightarrow> LegoFile
     \<Rightarrow> PizzaMissionState \<times> LegoFile" where
  "Serialize_read ReadFromFile i this p_file =
     (if i < 5 then
        (case ReadFromFile (m_state this ! i) p_file of
           (e, f) \<Rightarrow>
             Serialize_read ReadFromFile (i + 1) (this\<lparr>m_state := (m_state this)[i := e]\<rparr>) f)
      else (this, p_file))"
  by pat_completeness auto
termination
  by (relation "measure (\<lambda>(ReadFromFile, i, this, p_file). 5 - i)") auto

text \<open>
  \<^verbatim>\<open>for (MxS16 i = 0; i < 5; i++) { m_state[i].WriteToFile(p_file); }\<close>
  \<^verbatim>\<open>Entry::WriteToFile\<close> is the parameter \<open>WriteToFile\<close>: given the entry and the
  file, it returns the file as it leaves it.
\<close>

function Serialize_write ::
  "(Entry \<Rightarrow> LegoFile \<Rightarrow> LegoFile) \<Rightarrow> nat \<Rightarrow> PizzaMissionState \<Rightarrow> LegoFile \<Rightarrow> LegoFile" where
  "Serialize_write WriteToFile i this p_file =
     (if i < 5 then
        Serialize_write WriteToFile (i + 1) this (WriteToFile (m_state this ! i) p_file)
      else p_file)"
  by pat_completeness auto
termination
  by (relation "measure (\<lambda>(WriteToFile, i, this, p_file). 5 - i)") auto

text \<open>
  \<^verbatim>\<open>PizzaMissionState::Serialize\<close>. The base class's \<^verbatim>\<open>LegoState::Serialize\<close> is the
  parameter \<open>LegoState_Serialize\<close>, a function on the file. The result of the base
  call and whatever the entries' functions return are dropped by the source; the
  function ends in \<^verbatim>\<open>return SUCCESS;\<close> on every path.
\<close>

definition PizzaMissionState_Serialize ::
  "(LegoFile \<Rightarrow> LegoFile) \<Rightarrow> (Entry \<Rightarrow> LegoFile \<Rightarrow> Entry \<times> LegoFile)
     \<Rightarrow> (Entry \<Rightarrow> LegoFile \<Rightarrow> LegoFile)
     \<Rightarrow> PizzaMissionState \<Rightarrow> LegoFile \<Rightarrow> MxResult \<times> PizzaMissionState \<times> LegoFile" where
  "PizzaMissionState_Serialize LegoState_Serialize ReadFromFile WriteToFile this p_file =
     (let f0 = LegoState_Serialize p_file in
      if IsReadMode f0 then
        (case Serialize_read ReadFromFile 0 this f0 of (this', f) \<Rightarrow> (SUCCESS, this', f))
      else if IsWriteMode f0 then
        (SUCCESS, this, Serialize_write WriteToFile 0 this f0)
      else (SUCCESS, this, f0))"

subsection \<open>The record layout of the specification\<close>

text \<open>
  Modelled from the spec: \<^verbatim>\<open>Entry::WriteToFile\<close>, \<^verbatim>\<open>Entry::ReadFromFile\<close> and
  \<^verbatim>\<open>LegoState::Serialize\<close> are missing from the sources. Sections 4.3 and 6: an entry
  is a fixed-width binary record, the small integer id and then the flag/counter
  fields, written field by field with no padding and no delimiter; a state record
  serializes its five entries and nothing else, so the base call moves no byte; reading
  checks the length and leaves the entry zeroed when the stream is too short.
\<close>

definition entry_size :: nat where
  "entry_size = 5"

definition put_u32 :: "MxU32 \<Rightarrow> MxU8 list" where
  "put_u32 w = [ucast w, ucast (drop_bit 8 w), ucast (drop_bit 16 w), ucast (drop_bit 24 w)]"

definition get_u32 :: "MxU8 list \<Rightarrow> MxU32" where
  "get_u32 bs =
     ucast (bs ! 0) OR push_bit 8 (ucast (bs ! 1)) OR push_bit 16 (ucast (bs ! 2))
       OR push_bit 24 (ucast (bs ! 3))"

definition entry_bytes :: "Entry \<Rightarrow> MxU8 list" where
  "entry_bytes e = m_id e # put_u32 (m_unk0x10 e)"

definition Entry_WriteToFile :: "Entry \<Rightarrow> LegoFile \<Rightarrow> LegoFile" where
  "Entry_WriteToFile e p_file = p_file\<lparr>f_bytes := f_bytes p_file @ entry_bytes e\<rparr>"

definition Entry_ReadFromFile :: "Entry \<Rightarrow> LegoFile \<Rightarrow> Entry \<times> LegoFile" where
  "Entry_ReadFromFile e p_file =
     (if length (f_bytes p_file) < entry_size then
        (\<lparr>m_id = 0, m_unk0x10 = 0\<rparr>, p_file)
      else
        (\<lparr>m_id = hd (f_bytes p_file), m_unk0x10 = get_u32 (tl (f_bytes p_file))\<rparr>,
         p_file\<lparr>f_bytes := drop entry_size (f_bytes p_file)\<rparr>))"

definition LegoState_Serialize_spec :: "LegoFile \<Rightarrow> LegoFile" where
  "LegoState_Serialize_spec p_file = p_file"

section \<open>Pizza\<close>

text \<open>
  What \<^verbatim>\<open>Pizza\<close> inherits from \<^verbatim>\<open>IsleActor\<close> is declared outside the sources; the
  two inherited members \<^verbatim>\<open>Pizza::Create\<close> reads are kept in the base sub-object.
  \<^verbatim>\<open>MxAtomId\<close> is the id's string, \<^verbatim>\<open>MxDSAction&\<close> the address of the action.
\<close>

type_synonym MxAtomId = string
type_synonym MxDSAction = addr

record IsleActor =
  m_world :: "addr option"
  m_atomId :: MxAtomId

text \<open>
  The member \<^verbatim>\<open>Pizza::m_state\<close> is \<open>Pizza_m_state\<close> here, since \<open>m_state\<close> is the array
  of \<^verbatim>\<open>PizzaMissionState\<close>.
\<close>

record Pizza =
  isleActor :: IsleActor
  Pizza_m_state :: "addr option"
  m_entry :: "nat option"
  m_skateboard :: "addr option"
  m_act1state :: "addr option"
  m_unk0x8c :: MxU32
  m_unk0x90 :: MxU32
  m_unk0x98 :: MxU32

text \<open>
  The constructor, after the base class's has built the base sub-object. The three
  \<^verbatim>\<open>m_unk\<close> members are 32 bits wide; \<^verbatim>\<open>-1\<close> is the word of all ones.
\<close>

definition Pizza_Pizza :: "IsleActor \<Rightarrow> Pizza" where
  "Pizza_Pizza base =
     \<lparr>isleActor = base, Pizza_m_state = None, m_entry = None, m_skateboard = None,
      m_act1state = None, m_unk0x8c = - 1, m_unk0x90 = 0x80000000, m_unk0x98 = 0\<rparr>"

text \<open>
  \<^verbatim>\<open>IsleScript::c_SkateBoard_Actor\<close> is an enumerator of a generated header that is
  not in the sources; the others are not used here.
\<close>

datatype IsleScript = c_SkateBoard_Actor | c_other nat

text \<open>
  The functions \<^verbatim>\<open>Pizza\<close> calls but the sources do not define: the base class's
  \<^verbatim>\<open>Create\<close>, the registry behind \<^verbatim>\<open>GameState()\<close> and the world's \<^verbatim>\<open>Find\<close>. They are
  parameters, each a function on the state \<open>'g\<close> of everything outside the actor;
  the base class's \<^verbatim>\<open>Create\<close> is given the base sub-object.
\<close>

record 'g collaborators =
  IsleActor_Create :: "MxDSAction \<Rightarrow> IsleActor \<Rightarrow> 'g \<Rightarrow> MxResult \<times> IsleActor \<times> 'g"
  GameState_GetState :: "string \<Rightarrow> 'g \<Rightarrow> addr option \<times> 'g"
  GameState_CreateState :: "string \<Rightarrow> 'g \<Rightarrow> addr option \<times> 'g"
  LegoWorld_Find :: "addr \<Rightarrow> MxAtomId \<Rightarrow> IsleScript \<Rightarrow> 'g \<Rightarrow> addr option \<times> 'g"

text \<open>
  The environment of a call is the outside state and the list of the calls made to the
  collaborators so far, oldest first.
\<close>

datatype call =
    Call_IsleActor_Create MxDSAction
  | Call_GetState string
  | Call_CreateState string
  | Call_Find addr MxAtomId IsleScript

record 'g env =
  outside :: 'g
  calls :: "call list"


definition do_GetState :: "'g collaborators \<Rightarrow> string \<Rightarrow> 'g env \<Rightarrow> addr option \<times> 'g env" where
  "do_GetState K name E =
     (case GameState_GetState K name (outside E) of
        (r, g) \<Rightarrow> (r, \<lparr>outside = g, calls = calls E @ [Call_GetState name]\<rparr>))"

definition do_CreateState :: "'g collaborators \<Rightarrow> string \<Rightarrow> 'g env \<Rightarrow> addr option \<times> 'g env" where
  "do_CreateState K name E =
     (case GameState_CreateState K name (outside E) of
        (r, g) \<Rightarrow> (r, \<lparr>outside = g, calls = calls E @ [Call_CreateState name]\<rparr>))"


text \<open>
  \<^verbatim>\<open>m_state = (PizzaMissionState*) GameState()->GetState("PizzaMissionState");\<close>
  \<^verbatim>\<open>if (m_state == NULL) { m_state = (PizzaMissionState*) GameState()->CreateState("PizzaMissionState"); }\<close>
  and the same two statements for \<^verbatim>\<open>m_act1state\<close> and \<^verbatim>\<open>"Act1State"\<close>.
\<close>

definition Pizza_CreateState :: "'g collaborators \<Rightarrow> Pizza \<Rightarrow> 'g env \<Rightarrow> Pizza \<times> 'g env" where
  "Pizza_CreateState K this E =
     (case do_GetState K ''PizzaMissionState'' E of
        (r1, E1) \<Rightarrow>
     (let this1 = this\<lparr>Pizza_m_state := r1\<rparr> in
      case (if Pizza_m_state this1 = None then
              (case do_CreateState K ''PizzaMissionState'' E1 of
                 (r, E') \<Rightarrow> (this1\<lparr>Pizza_m_state := r\<rparr>, E'))
            else (this1, E1)) of
        (this2, E2) \<Rightarrow>
     (case do_GetState K ''Act1State'' E2 of
        (r3, E3) \<Rightarrow>
     (let this3 = this2\<lparr>m_act1state := r3\<rparr> in
      if m_act1state this3 = None then
        (case do_CreateState K ''Act1State'' E3 of
           (r, E') \<Rightarrow> (this3\<lparr>m_act1state := r\<rparr>, E'))
      else (this3, E3)))))"



text \<open>The stubs: each body is \<^verbatim>\<open>// TODO\<close> and \<^verbatim>\<open>return 0;\<close> (\<^verbatim>\<open>return SUCCESS;\<close> in \<^verbatim>\<open>Tickle\<close>).\<close>

definition Pizza_HandleClick :: "Pizza \<Rightarrow> 'g env \<Rightarrow> MxLong \<times> Pizza \<times> 'g env" where
  "Pizza_HandleClick this E = (0, this, E)"

definition Pizza_HandlePathStruct :: "'p \<Rightarrow> Pizza \<Rightarrow> 'g env \<Rightarrow> MxLong \<times> Pizza \<times> 'g env" where
  "Pizza_HandlePathStruct p_param this E = (0, this, E)"

definition Pizza_HandleEndAction :: "'p \<Rightarrow> Pizza \<Rightarrow> 'g env \<Rightarrow> MxLong \<times> Pizza \<times> 'g env" where
  "Pizza_HandleEndAction p_param this E = (0, this, E)"

definition Pizza_Tickle :: "Pizza \<Rightarrow> 'g env \<Rightarrow> MxResult \<times> Pizza \<times> 'g env" where
  "Pizza_Tickle this E = (SUCCESS, this, E)"

section \<open>The tickle manager\<close>

text \<open>
  Modelled from the spec: \<^verbatim>\<open>MxTickleManager\<close> (\<^verbatim>\<open>RegisterClient\<close>, \<^verbatim>\<open>UnregisterClient\<close>
  and the pass over the clients) is missing from the sources, which only call
  \<^verbatim>\<open>TickleManager()->UnregisterClient(this)\<close>. Section 4.1: the scheduler keeps the
  registered clients in a list; registering appends a client unless it is registered
  already; unregistering removes it; a pass visits the list from the front and calls
  each client's update hook, and when a client unregisters itself inside its hook the
  later entries shift down by one and the pass goes on at the same position.
\<close>

type_synonym MxTickleManager = "addr list"

definition RegisterClient :: "addr \<Rightarrow> MxTickleManager \<Rightarrow> MxTickleManager" where
  "RegisterClient client tm = (if client \<in> set tm then tm else tm @ [client])"

definition UnregisterClient :: "addr \<Rightarrow> MxTickleManager \<Rightarrow> MxTickleManager" where
  "UnregisterClient client tm = removeAll client tm"

text \<open>What a client's update hook does to its own registration.\<close>

datatype reaction = StayRegistered | UnregisterSelf

text \<open>
  One pass from position \<open>i\<close> on; \<open>ticked\<close> are the clients whose hook has run in
  this pass, in the order of the calls. The position is tested against the length of
  the list before each read, so the pass never reads past the end.
\<close>

function Tickle_from ::
  "(addr \<Rightarrow> reaction) \<Rightarrow> nat \<Rightarrow> MxTickleManager \<Rightarrow> addr list \<Rightarrow> MxTickleManager \<times> addr list" where
  "Tickle_from hook i tm ticked =
     (if i < length tm then
        (let client = tm ! i in
         case hook client of
           StayRegistered \<Rightarrow> Tickle_from hook (i + 1) tm (ticked @ [client])
         | UnregisterSelf \<Rightarrow> Tickle_from hook i (UnregisterClient client tm) (ticked @ [client]))
      else (tm, ticked))"
  by pat_completeness auto
termination
proof (relation "measure (\<lambda>(hook, i, tm, ticked). length tm - i)", goal_cases)
  case 1
  show ?case by simp
next
  case (2 hook i tm ticked client)
  then show ?case by simp
next
  case (3 hook i tm ticked client)
  then have "client \<in> set tm"
    by simp
  then have "length (removeAll client tm) < length tm"
    by (rule length_removeAll_less)
  with 3 show ?case
    by (simp add: UnregisterClient_def)
qed

definition TickleAll :: "(addr \<Rightarrow> reaction) \<Rightarrow> MxTickleManager \<Rightarrow> MxTickleManager \<times> addr list" where
  "TickleAll hook tm = Tickle_from hook 0 tm []"

text \<open>
  A session of the scheduler: registrations, unregistrations and passes, in order. Each
  pass is recorded as the pair of the clients registered when it starts and the clients
  it ticked.
\<close>

datatype tickle_op = Register addr | Unregister addr | Pass "addr \<Rightarrow> reaction"

fun run_ops ::
  "tickle_op list \<Rightarrow> MxTickleManager \<Rightarrow> (addr list \<times> addr list) list
     \<Rightarrow> MxTickleManager \<times> (addr list \<times> addr list) list" where
  "run_ops [] tm passes = (tm, passes)"
| "run_ops (Register client # ops) tm passes = run_ops ops (RegisterClient client tm) passes"
| "run_ops (Unregister client # ops) tm passes = run_ops ops (UnregisterClient client tm) passes"
| "run_ops (Pass hook # ops) tm passes =
     (case TickleAll hook tm of
        (tm', ticked) \<Rightarrow> run_ops ops tm' (passes @ [(tm, ticked)]))"

text \<open>
  What a session's history says by itself, without the scheduler's list. The history is
  read latest call first. \<open>registered_at h c = Some t\<close> when client \<open>c\<close> is registered
  after the history \<open>h\<close>, and the call that registered it is call number \<open>t\<close> of the
  session (counted from 0): a \<^verbatim>\<open>Register\<close> of a client that is not registered registers
  it, an \<^verbatim>\<open>Unregister\<close> ends the registration, and so does a pass in which the client's
  hook unregisters it. Registration order is the order of these call numbers.
\<close>

fun registered_at :: "tickle_op list \<Rightarrow> addr \<Rightarrow> nat option" where
  "registered_at [] c = None"
| "registered_at (Register client # earlier) c =
     (if client = c \<and> registered_at earlier c = None then Some (length earlier)
      else registered_at earlier c)"
| "registered_at (Unregister client # earlier) c =
     (if client = c then None else registered_at earlier c)"
| "registered_at (Pass hook # earlier) c =
     (if hook c = UnregisterSelf then None else registered_at earlier c)"

text \<open>The passes of a session are counted with \<open>is_pass\<close>.\<close>

definition is_pass :: "tickle_op \<Rightarrow> bool" where
  "is_pass op = (case op of Pass hook \<Rightarrow> True | _ \<Rightarrow> False)"

text \<open>
  \<^verbatim>\<open>Pizza::~Pizza() { TickleManager()->UnregisterClient(this); }\<close>
  \<open>this\<close> is the address of the actor.
\<close>

definition Pizza_destructor :: "addr \<Rightarrow> MxTickleManager \<Rightarrow> MxTickleManager" where
  "Pizza_destructor this tm = UnregisterClient this tm"

section \<open>Example values\<close>

text \<open>Concrete inputs at which the theorems below are instantiated.\<close>

definition example_state :: PizzaMissionState where
  "example_state =
     \<lparr>m_unk0x0c = 0,
      m_state = [\<lparr>m_id = 1, m_unk0x10 = 0\<rparr>, \<lparr>m_id = 2, m_unk0x10 = 0x80000000\<rparr>,
                 \<lparr>m_id = 3, m_unk0x10 = 258\<rparr>, \<lparr>m_id = 2, m_unk0x10 = 7\<rparr>,
                 \<lparr>m_id = 5, m_unk0x10 = 0\<rparr>]\<rparr>"

definition example_bytes :: "MxU8 list" where
  "example_bytes =
     [1, 0, 0, 0, 0,  2, 0, 0, 0, 0x80,  3, 2, 1, 0, 0,  2, 7, 0, 0, 0,  5, 0, 0, 0, 0]"

definition blank_state :: PizzaMissionState where
  "blank_state =
     \<lparr>m_unk0x0c = 0,
      m_state = [\<lparr>m_id = 0, m_unk0x10 = 0\<rparr>, \<lparr>m_id = 0, m_unk0x10 = 0\<rparr>,
                 \<lparr>m_id = 0, m_unk0x10 = 0\<rparr>, \<lparr>m_id = 0, m_unk0x10 = 0\<rparr>,
                 \<lparr>m_id = 0, m_unk0x10 = 0\<rparr>]\<rparr>"

text \<open>
  A registry for the examples, after section 4.2 of the specification: \<^verbatim>\<open>GetState\<close>
  finds the object stored under a name or nothing; \<^verbatim>\<open>CreateState\<close> stores a new object
  under a name that has none and fails on a name that has one. The example base class
  cannot create action 0 and binds every other actor to the world at address 100, whose
  \<^verbatim>\<open>Find\<close> knows the skateboard as the object at address 7.
\<close>

type_synonym registry = "(string \<times> addr) list"

definition registry_GetState :: "string \<Rightarrow> registry \<Rightarrow> addr option \<times> registry" where
  "registry_GetState name g = (map_of g name, g)"

definition registry_CreateState :: "string \<Rightarrow> registry \<Rightarrow> addr option \<times> registry" where
  "registry_CreateState name g =
     (case map_of g name of
        Some a \<Rightarrow> (None, g)
      | None \<Rightarrow> (Some (length g), g @ [(name, length g)]))"

definition example_collaborators :: "registry collaborators" where
  "example_collaborators =
     \<lparr>IsleActor_Create =
        (\<lambda>p_dsAction base g.
           if p_dsAction = 0 then (- 1, base, g)
           else (SUCCESS, base\<lparr>m_world := Some 100\<rparr>, g)),
      GameState_GetState = registry_GetState,
      GameState_CreateState = registry_CreateState,
      LegoWorld_Find =
        (\<lambda>world atom object g.
           (if world = 100 \<and> object = c_SkateBoard_Actor then Some 7 else None, g))\<rparr>"


definition example_Pizza :: Pizza where
  "example_Pizza = Pizza_Pizza \<lparr>m_world = None, m_atomId = ''isle''\<rparr>"

definition example_env :: "registry env" where
  "example_env = \<lparr>outside = [(''Act1State'', 0)], calls = []\<rparr>"

section \<open>Facts about Helicopter\<close>

lemma of_char_int_eq_iff: "(of_char a :: int) = of_char b \<longleftrightarrow> a = b"
proof
  assume "(of_char a :: int) = of_char b"
  then have "int (of_char a) = int (of_char b)"
    by (simp add: of_nat_of_char)
  then have "(of_char a :: nat) = of_char b"
    by simp
  then show "a = b"
    by simp
qed simp

lemma of_char_int_eq_0_iff: "(of_char a :: int) = 0 \<longleftrightarrow> a = CHR 0x00"
  using of_char_int_eq_iff [of a "CHR 0x00"] by simp

lemma strcmp_eq_0_iff: "strcmp a b = 0 \<longleftrightarrow> c_str a = c_str b"
proof (induction a b rule: strcmp.induct)
  case 1
  show ?case by (simp add: c_str_def)
next
  case (2 b bs)
  show ?case by (simp add: c_str_def of_char_int_eq_0_iff)
next
  case (3 a as)
  show ?case by (simp add: c_str_def of_char_int_eq_0_iff)
next
  case (4 a as b bs)
  then show ?case
    by (auto simp: c_str_def of_char_int_eq_iff of_char_int_eq_0_iff)
qed

lemma c_str_Helicopter: "c_str ''Helicopter'' = ''Helicopter''"
  by (simp add: c_str_def)

text \<open>
  C9. For every string \<open>p_name\<close>, \<^verbatim>\<open>Helicopter::IsA(p_name)\<close> is true exactly when
  \<open>p_name\<close>, as a C string, equals \<^verbatim>\<open>"Helicopter"\<close> or the base class's \<^verbatim>\<open>IsA\<close> accepts
  \<open>p_name\<close>; in particular a helicopter is a \<^verbatim>\<open>ClassName()\<close>.
\<close>

theorem Helicopter_IsA_iff:
  "Helicopter_IsA IslePathActor_IsA p_name =
     (c_str p_name = ''Helicopter'' \<or> IslePathActor_IsA p_name)
   \<and> Helicopter_IsA IslePathActor_IsA Helicopter_ClassName"
  by (simp add: Helicopter_IsA_def Helicopter_ClassName_def strcmp_eq_0_iff c_str_Helicopter)

section \<open>Facts about PizzaMissionState::GetState\<close>

declare GetState_loop.simps [simp del]

lemma GetState_loop_reads:
  "GetState_loop this p_id i reads = (r, reads') \<Longrightarrow> i \<le> 5 \<Longrightarrow>
     reads' = reads @ [i..<(case r of None \<Rightarrow> 5 | Some k \<Rightarrow> Suc k)]
     \<and> (\<forall>k. r = Some k \<longrightarrow> i \<le> k)"
proof (induction this p_id i reads arbitrary: r reads' rule: GetState_loop.induct)
  case (1 this p_id i reads)
  show ?case
  proof (cases "i < 5 \<and> m_id (m_state this ! i) \<noteq> p_id")
    case False
    with "1.prems" show ?thesis
      by (auto simp: GetState_loop.simps [of this p_id i reads] split: if_splits)
  next
    case True
    with "1.prems" have rec: "GetState_loop this p_id (i + 1) (reads @ [i]) = (r, reads')"
      by (simp add: GetState_loop.simps [of this p_id i reads])
    from True have "i < 5" and miss: "m_id (m_state this ! i) \<noteq> p_id"
      by simp_all
    from "1.IH" [OF \<open>i < 5\<close> miss rec] \<open>i < 5\<close>
    have ih: "reads' = (reads @ [i]) @ [i + 1..<(case r of None \<Rightarrow> 5 | Some k \<Rightarrow> Suc k)]"
      and lo: "\<forall>k. r = Some k \<longrightarrow> i + 1 \<le> k"
      by simp_all
    from lo \<open>i < 5\<close> have "i < (case r of None \<Rightarrow> 5 | Some k \<Rightarrow> Suc k)"
      by (cases r) auto
    then have "[i..<(case r of None \<Rightarrow> 5 | Some k \<Rightarrow> Suc k)]
        = i # [i + 1..<(case r of None \<Rightarrow> 5 | Some k \<Rightarrow> Suc k)]"
      by (simp add: upt_conv_Cons)
    with ih lo show ?thesis
      by auto
  qed
qed

lemma GetState_loop_result:
  "GetState_loop this p_id i reads = (r, reads') \<Longrightarrow>
     (case r of
        None \<Rightarrow> (\<forall>j. i \<le> j \<and> j < 5 \<longrightarrow> m_id (m_state this ! j) \<noteq> p_id)
      | Some k \<Rightarrow> i \<le> k \<and> k < 5 \<and> m_id (m_state this ! k) = p_id \<and>
          (\<forall>j. i \<le> j \<and> j < k \<longrightarrow> m_id (m_state this ! j) \<noteq> p_id))"
proof (induction this p_id i reads arbitrary: r reads' rule: GetState_loop.induct)
  case (1 this p_id i reads)
  show ?case
  proof (cases "i < 5 \<and> m_id (m_state this ! i) \<noteq> p_id")
    case False
    with "1.prems" show ?thesis
      by (auto simp: GetState_loop.simps [of this p_id i reads] split: if_splits)
  next
    case True
    with "1.prems" have rec: "GetState_loop this p_id (i + 1) (reads @ [i]) = (r, reads')"
      by (simp add: GetState_loop.simps [of this p_id i reads])
    from True have "i < 5" and miss: "m_id (m_state this ! i) \<noteq> p_id"
      by simp_all
    note ih = "1.IH" [OF \<open>i < 5\<close> miss rec]
    have step: "j = i \<or> i + 1 \<le> j" if "i \<le> j" for j
      using that by arith
    show ?thesis
    proof (cases r)
      case None
      with ih have "\<forall>j. i + 1 \<le> j \<and> j < 5 \<longrightarrow> m_id (m_state this ! j) \<noteq> p_id"
        by simp
      with miss step have "\<forall>j. i \<le> j \<and> j < 5 \<longrightarrow> m_id (m_state this ! j) \<noteq> p_id"
        by blast
      with None show ?thesis by simp
    next
      case (Some k)
      with ih have k: "i + 1 \<le> k" "k < 5" "m_id (m_state this ! k) = p_id"
        and "\<forall>j. i + 1 \<le> j \<and> j < k \<longrightarrow> m_id (m_state this ! j) \<noteq> p_id"
        by simp_all
      with miss step have "\<forall>j. i \<le> j \<and> j < k \<longrightarrow> m_id (m_state this ! j) \<noteq> p_id"
        by blast
      with Some k show ?thesis by simp
    qed
  qed
qed

text \<open>
  C3. For every id \<open>p_id\<close>, \<^verbatim>\<open>PizzaMissionState::GetState(p_id)\<close> reads \<^verbatim>\<open>m_state\<close> only
  at indices inside the array of 5 entries (the indices 0, 1, ... up to the match, or
  0 to 4 when there is none); it returns \<^verbatim>\<open>NULL\<close> exactly when none of the 5 entries has
  \<open>m_id = p_id\<close>, and otherwise the entry of lowest index whose \<open>m_id\<close> is \<open>p_id\<close>.
\<close>

theorem GetState_first_match:
  assumes "length (m_state this) = 5"
    and "PizzaMissionState_GetState this p_id = (r, reads)"
  shows "(\<forall>i \<in> set reads. i < length (m_state this))
    \<and> reads = [0..<(case r of None \<Rightarrow> 5 | Some k \<Rightarrow> Suc k)]
    \<and> (r = None \<longleftrightarrow> (\<forall>i<5. m_id (m_state this ! i) \<noteq> p_id))
    \<and> (\<forall>k. r = Some k \<longrightarrow>
          k < 5 \<and> m_id (m_state this ! k) = p_id \<and> (\<forall>j<k. m_id (m_state this ! j) \<noteq> p_id))"
proof -
  from assms(2) have loop: "GetState_loop this p_id 0 [] = (r, reads)"
    by (simp add: PizzaMissionState_GetState_def)
  from GetState_loop_reads [OF loop]
  have reads: "reads = [0..<(case r of None \<Rightarrow> 5 | Some k \<Rightarrow> Suc k)]"
    by simp
  note res = GetState_loop_result [OF loop]
  from res have bound: "(case r of None \<Rightarrow> 5 | Some k \<Rightarrow> Suc k) \<le> 5"
    by (cases r) auto
  from reads bound assms(1) have inb: "\<forall>i \<in> set reads. i < length (m_state this)"
    by auto
  from res have none: "r = None \<longleftrightarrow> (\<forall>i<5. m_id (m_state this ! i) \<noteq> p_id)"
    by (cases r) auto
  from res have some: "\<forall>k. r = Some k \<longrightarrow>
          k < 5 \<and> m_id (m_state this ! k) = p_id \<and> (\<forall>j<k. m_id (m_state this ! j) \<noteq> p_id)"
    by (cases r) auto
  from inb reads none some show ?thesis
    by blast
qed

theorem GetState_first_match_witness:
  "length (m_state example_state) = 5
   \<and> PizzaMissionState_GetState example_state 2 = (Some 1, [0, 1])
   \<and> m_id (m_state example_state ! 1) = 2
   \<and> m_id (m_state example_state ! 0) \<noteq> 2
   \<and> PizzaMissionState_GetState example_state 9 = (None, [0, 1, 2, 3, 4])"
proof -
  have len: "length (m_state example_state) = 5"
    by (simp add: example_state_def)
  have hit: "PizzaMissionState_GetState example_state 2 = (Some 1, [0, 1])"
    by (simp add: PizzaMissionState_GetState_def example_state_def GetState_loop.simps)
  have miss: "PizzaMissionState_GetState example_state 9 = (None, [0, 1, 2, 3, 4])"
    by (simp add: PizzaMissionState_GetState_def example_state_def GetState_loop.simps)
  from GetState_first_match [OF len hit] len hit miss show ?thesis
    by simp
qed

section \<open>Facts about PizzaMissionState::Serialize\<close>

lemma length_5_cases: "length xs = 5 \<Longrightarrow> \<exists>a b c d e. xs = [a, b, c, d, e]"
  by (auto simp: length_Suc_conv eval_nat_numeral)

lemma Serialize_read_five:
  assumes "m_state this = [a, b, c, d, e]"
  shows "Serialize_read rd 0 this p_file =
     (case rd a p_file of (e0, f1) \<Rightarrow>
      case rd b f1 of (e1, f2) \<Rightarrow>
      case rd c f2 of (e2, f3) \<Rightarrow>
      case rd d f3 of (e3, f4) \<Rightarrow>
      case rd e f4 of (e4, f5) \<Rightarrow>
        (this\<lparr>m_state := [e0, e1, e2, e3, e4]\<rparr>, f5))"
  using assms by (simp add: Serialize_read.simps split: prod.splits)

lemma Serialize_write_five:
  assumes "m_state this = [a, b, c, d, e]"
  shows "Serialize_write wr 0 this p_file = wr e (wr d (wr c (wr b (wr a p_file))))"
  using assms by (simp add: Serialize_write.simps)

text \<open>
  C7. \<^verbatim>\<open>PizzaMissionState::Serialize\<close> handles exactly the 5 entries, in the order of
  their indices 0 to 4 and in one pass. In read mode the result is that of
  \<^verbatim>\<open>ReadFromFile\<close> on \<^verbatim>\<open>m_state[0]\<close>, then on \<^verbatim>\<open>m_state[1]\<close>, ..., then on \<^verbatim>\<open>m_state[4]\<close>, each
  call continuing with the file as the call before left it; in write mode it is that
  of \<^verbatim>\<open>WriteToFile\<close> on \<^verbatim>\<open>m_state[0]\<close>, ..., \<^verbatim>\<open>m_state[4]\<close> in the same way. Nothing else
  touches the file after the base class's call: no entry is skipped or repeated and
  nothing is written between two records.
\<close>

theorem Serialize_index_order:
  assumes "length (m_state this) = 5"
  shows "(IsReadMode (base p_file) \<longrightarrow>
      PizzaMissionState_Serialize base rd wr this p_file =
       (case rd (m_state this ! 0) (base p_file) of (e0, f1) \<Rightarrow>
        case rd (m_state this ! 1) f1 of (e1, f2) \<Rightarrow>
        case rd (m_state this ! 2) f2 of (e2, f3) \<Rightarrow>
        case rd (m_state this ! 3) f3 of (e3, f4) \<Rightarrow>
        case rd (m_state this ! 4) f4 of (e4, f5) \<Rightarrow>
          (SUCCESS, this\<lparr>m_state := [e0, e1, e2, e3, e4]\<rparr>, f5)))
    \<and> (IsWriteMode (base p_file) \<longrightarrow>
      PizzaMissionState_Serialize base rd wr this p_file =
        (SUCCESS, this,
         wr (m_state this ! 4) (wr (m_state this ! 3) (wr (m_state this ! 2)
           (wr (m_state this ! 1) (wr (m_state this ! 0) (base p_file)))))))"
proof -
  from length_5_cases [OF assms] obtain a b c d e where es: "m_state this = [a, b, c, d, e]"
    by blast
  have rd: "IsReadMode (base p_file) \<Longrightarrow> ?thesis"
    by (simp add: PizzaMissionState_Serialize_def Serialize_read_five [OF es] es
        IsReadMode_def IsWriteMode_def split: prod.splits)
  have wr: "IsWriteMode (base p_file) \<Longrightarrow> ?thesis"
    by (simp add: PizzaMissionState_Serialize_def Serialize_write_five [OF es] es
        IsReadMode_def IsWriteMode_def)
  show ?thesis
    using rd wr by (cases "f_mode (base p_file)") (auto simp: IsReadMode_def IsWriteMode_def)
qed

theorem Serialize_index_order_witness:
  "length (m_state example_state) = 5
   \<and> IsWriteMode (LegoState_Serialize_spec \<lparr>f_mode = WriteMode, f_bytes = []\<rparr>)
   \<and> PizzaMissionState_Serialize LegoState_Serialize_spec Entry_ReadFromFile Entry_WriteToFile
        example_state \<lparr>f_mode = WriteMode, f_bytes = []\<rparr>
      = (SUCCESS, example_state, \<lparr>f_mode = WriteMode, f_bytes = example_bytes\<rparr>)"
proof -
  have len: "length (m_state example_state) = 5"
    by (simp add: example_state_def)
  have mode: "IsWriteMode (LegoState_Serialize_spec \<lparr>f_mode = WriteMode, f_bytes = []\<rparr>)"
    by (simp add: IsWriteMode_def LegoState_Serialize_spec_def)
  from Serialize_index_order [OF len, of LegoState_Serialize_spec
      "\<lparr>f_mode = WriteMode, f_bytes = []\<rparr>" Entry_ReadFromFile Entry_WriteToFile] mode
  have "PizzaMissionState_Serialize LegoState_Serialize_spec Entry_ReadFromFile Entry_WriteToFile
        example_state \<lparr>f_mode = WriteMode, f_bytes = []\<rparr>
      = (SUCCESS, example_state, \<lparr>f_mode = WriteMode, f_bytes = example_bytes\<rparr>)"
    by (simp add: example_state_def example_bytes_def LegoState_Serialize_spec_def
        Entry_WriteToFile_def entry_bytes_def put_u32_def)
  with len mode show ?thesis
    by simp
qed

subsection \<open>Round trip through the record layout of the specification\<close>

lemma get_put_u32: "get_u32 (put_u32 w @ rest) = w"
proof -
  have "(ucast (ucast w :: 8 word) :: 32 word) OR push_bit 8 (ucast (ucast (drop_bit 8 w) :: 8 word))
      OR push_bit 16 (ucast (ucast (drop_bit 16 w) :: 8 word))
      OR push_bit 24 (ucast (ucast (drop_bit 24 w) :: 8 word)) = w"
  proof (rule bit_word_eqI)
    fix n
    assume "n < LENGTH(32)"
    then have n: "n < 32" by simp
    consider "n < 8" | "8 \<le> n" "n < 16" | "16 \<le> n" "n < 24" | "24 \<le> n"
      by linarith
    then show "bit ((ucast (ucast w :: 8 word) :: 32 word)
        OR push_bit 8 (ucast (ucast (drop_bit 8 w) :: 8 word))
        OR push_bit 16 (ucast (ucast (drop_bit 16 w) :: 8 word))
        OR push_bit 24 (ucast (ucast (drop_bit 24 w) :: 8 word))) n = bit w n"
      using n by cases (auto simp: bit_simps)
  qed
  then show ?thesis
    by (simp add: get_u32_def put_u32_def)
qed

lemma length_entry_bytes: "length (entry_bytes e) = entry_size"
  by (simp add: entry_bytes_def put_u32_def entry_size_def)

lemma Entry_WriteToFile_appends:
  "Entry_WriteToFile e p_file = p_file\<lparr>f_bytes := f_bytes p_file @ entry_bytes e\<rparr>"
  by (simp add: Entry_WriteToFile_def)

lemma Entry_ReadFromFile_entry_bytes:
  "Entry_ReadFromFile old \<lparr>f_mode = m, f_bytes = entry_bytes e @ rest\<rparr>
     = (e, \<lparr>f_mode = m, f_bytes = rest\<rparr>)"
proof -
  have "length (entry_bytes e @ rest) \<ge> entry_size"
    by (simp add: length_entry_bytes)
  moreover have "drop entry_size (entry_bytes e @ rest) = rest"
    by (simp add: length_entry_bytes)
  moreover have "hd (entry_bytes e @ rest) = m_id e"
    by (simp add: entry_bytes_def)
  moreover have "get_u32 (tl (entry_bytes e @ rest)) = m_unk0x10 e"
    by (simp add: entry_bytes_def get_put_u32)
  ultimately show ?thesis
    by (simp add: Entry_ReadFromFile_def)
qed

text \<open>
  C1. Round trip: when a state \<open>X\<close> with 5 entries is serialized in write mode and a
  fresh state is then serialized in read mode over the bytes just written, the 5
  entries of the state read are equal, field by field, to those of \<open>X\<close>; both calls
  return \<^verbatim>\<open>SUCCESS\<close>, \<open>X\<close> is unchanged, and the reader stops exactly where the written
  bytes end. Proved for the record layout of the specification
  (\<open>Entry_WriteToFile\<close>, \<open>Entry_ReadFromFile\<close>, \<open>LegoState_Serialize_spec\<close>).
\<close>

theorem Serialize_round_trip:
  assumes X: "length (m_state X) = 5" and fresh: "length (m_state fresh) = 5"
    and wr: "PizzaMissionState_Serialize LegoState_Serialize_spec Entry_ReadFromFile
        Entry_WriteToFile X \<lparr>f_mode = WriteMode, f_bytes = pre\<rparr> = (r1, X', fw)"
    and rd: "PizzaMissionState_Serialize LegoState_Serialize_spec Entry_ReadFromFile
        Entry_WriteToFile fresh
        \<lparr>f_mode = ReadMode, f_bytes = drop (length pre) (f_bytes fw) @ rest\<rparr> = (r2, Y, fr)"
  shows "m_state Y = m_state X \<and> X' = X \<and> f_bytes fr = rest \<and> r1 = SUCCESS \<and> r2 = SUCCESS"
proof -
  from length_5_cases [OF X] obtain a b c d e where es: "m_state X = [a, b, c, d, e]"
    by blast
  from length_5_cases [OF fresh] obtain a' b' c' d' e'
    where es': "m_state fresh = [a', b', c', d', e']"
    by blast
  from wr es have w: "r1 = SUCCESS" "X' = X"
    "fw = \<lparr>f_mode = WriteMode, f_bytes = pre @ entry_bytes a @ entry_bytes b @ entry_bytes c
        @ entry_bytes d @ entry_bytes e\<rparr>"
    by (auto simp: PizzaMissionState_Serialize_def LegoState_Serialize_spec_def IsReadMode_def
        IsWriteMode_def Serialize_write_five [OF es] Entry_WriteToFile_appends)
  have bytes: "drop (length pre) (f_bytes fw) @ rest
      = entry_bytes a @ entry_bytes b @ entry_bytes c @ entry_bytes d @ entry_bytes e @ rest"
    by (simp add: w(3))
  from rd es' have "r2 = SUCCESS" "Y = fresh\<lparr>m_state := [a, b, c, d, e]\<rparr>"
    "fr = \<lparr>f_mode = ReadMode, f_bytes = rest\<rparr>"
    unfolding bytes
    by (auto simp: PizzaMissionState_Serialize_def LegoState_Serialize_spec_def IsReadMode_def
        Serialize_read_five [OF es'] Entry_ReadFromFile_entry_bytes)
  with w es show ?thesis
    by simp
qed

theorem Serialize_round_trip_witness:
  "length (m_state example_state) = 5 \<and> length (m_state blank_state) = 5
   \<and> PizzaMissionState_Serialize LegoState_Serialize_spec Entry_ReadFromFile Entry_WriteToFile
        example_state \<lparr>f_mode = WriteMode, f_bytes = []\<rparr>
      = (SUCCESS, example_state, \<lparr>f_mode = WriteMode, f_bytes = example_bytes\<rparr>)
   \<and> PizzaMissionState_Serialize LegoState_Serialize_spec Entry_ReadFromFile Entry_WriteToFile
        blank_state \<lparr>f_mode = ReadMode, f_bytes = example_bytes\<rparr>
      = (SUCCESS, blank_state\<lparr>m_state := m_state example_state\<rparr>,
         \<lparr>f_mode = ReadMode, f_bytes = []\<rparr>)"
proof -
  have X: "length (m_state example_state) = 5"
    by (simp add: example_state_def)
  have fresh: "length (m_state blank_state) = 5"
    by (simp add: blank_state_def)
  have wr: "PizzaMissionState_Serialize LegoState_Serialize_spec Entry_ReadFromFile
      Entry_WriteToFile example_state \<lparr>f_mode = WriteMode, f_bytes = []\<rparr>
      = (SUCCESS, example_state, \<lparr>f_mode = WriteMode, f_bytes = example_bytes\<rparr>)"
    by (simp add: PizzaMissionState_Serialize_def LegoState_Serialize_spec_def IsReadMode_def
        IsWriteMode_def Serialize_write.simps Entry_WriteToFile_def entry_bytes_def put_u32_def
        example_state_def example_bytes_def)
  have rd: "PizzaMissionState_Serialize LegoState_Serialize_spec Entry_ReadFromFile
      Entry_WriteToFile blank_state
      \<lparr>f_mode = ReadMode,
         f_bytes = drop (length ([] :: MxU8 list))
           (f_bytes \<lparr>f_mode = WriteMode, f_bytes = example_bytes\<rparr>) @ []\<rparr>
      = (SUCCESS, blank_state\<lparr>m_state := m_state example_state\<rparr>,
         \<lparr>f_mode = ReadMode, f_bytes = []\<rparr>)"
    by (simp add: PizzaMissionState_Serialize_def LegoState_Serialize_spec_def IsReadMode_def
        Serialize_read.simps Entry_ReadFromFile_def entry_size_def get_u32_def
        example_state_def example_bytes_def blank_state_def)
  from Serialize_round_trip [OF X fresh wr rd] X fresh wr rd show ?thesis
    by simp
qed

subsection \<open>Truncated streams\<close>

lemma put_get_u32: "put_u32 (get_u32 [a, b, c, d]) = [a, b, c, d]"
proof -
  let ?w = "(ucast a :: MxU32) OR push_bit 8 (ucast b) OR push_bit 16 (ucast c)
      OR push_bit 24 (ucast d)"
  have "(ucast ?w :: MxU8) = a"
    by (rule bit_word_eqI) (auto simp: bit_simps dest: bit_imp_le_length)
  moreover have "(ucast (drop_bit 8 ?w) :: MxU8) = b"
    by (rule bit_word_eqI) (auto simp: bit_simps dest: bit_imp_le_length)
  moreover have "(ucast (drop_bit 16 ?w) :: MxU8) = c"
    by (rule bit_word_eqI) (auto simp: bit_simps dest: bit_imp_le_length)
  moreover have "(ucast (drop_bit 24 ?w) :: MxU8) = d"
    by (rule bit_word_eqI) (auto simp: bit_simps dest: bit_imp_le_length)
  ultimately show ?thesis
    by (simp add: put_u32_def get_u32_def)
qed

lemma record_of_bytes:
  assumes "length c = entry_size"
  shows "\<exists>e. entry_bytes e = c"
proof -
  from assms obtain b0 b1 b2 b3 b4 where c: "c = [b0, b1, b2, b3, b4]"
    using length_5_cases [of c] by (auto simp: entry_size_def)
  have "entry_bytes \<lparr>m_id = b0, m_unk0x10 = get_u32 [b1, b2, b3, b4]\<rparr> = c"
    by (simp add: entry_bytes_def put_get_u32 c)
  then show ?thesis ..
qed

lemma stream_records:
  "\<exists>es partial. bs = concat (map entry_bytes es) @ partial
     \<and> length partial < entry_size \<and> length es = length bs div entry_size"
proof (induction "length bs" arbitrary: bs rule: less_induct)
  case less
  show ?case
  proof (cases "length bs < entry_size")
    case True
    then have "bs = concat (map entry_bytes []) @ bs \<and> length bs < entry_size
        \<and> length ([] :: Entry list) = length bs div entry_size"
      by simp
    then show ?thesis by blast
  next
    case False
    then have len: "length (take entry_size bs) = entry_size"
      by simp
    from record_of_bytes [OF len] obtain e where e: "entry_bytes e = take entry_size bs"
      by blast
    have pos: "0 < entry_size"
      by (simp add: entry_size_def)
    with False have "length (drop entry_size bs) < length bs"
      by simp
    from less [OF this] obtain es partial
      where rest: "drop entry_size bs = concat (map entry_bytes es) @ partial"
        and part: "length partial < entry_size"
        and n: "length es = length (drop entry_size bs) div entry_size"
      by blast
    have "bs = take entry_size bs @ drop entry_size bs"
      by simp
    with e rest have "bs = concat (map entry_bytes (e # es)) @ partial"
      by simp
    moreover from n False pos have "length (e # es) = length bs div entry_size"
      by (simp add: entry_size_def) 
    ultimately show ?thesis
      using part by blast
  qed
qed


lemma Entry_ReadFromFile_short:
  "length partial < entry_size \<Longrightarrow>
     Entry_ReadFromFile old \<lparr>f_mode = m, f_bytes = partial\<rparr>
       = (\<lparr>m_id = 0, m_unk0x10 = 0\<rparr>, \<lparr>f_mode = m, f_bytes = partial\<rparr>)"
  by (simp add: Entry_ReadFromFile_def)

lemma length_less_5_cases:
  "length es < 5 \<Longrightarrow>
     es = [] \<or> (\<exists>a. es = [a]) \<or> (\<exists>a b. es = [a, b]) \<or> (\<exists>a b c. es = [a, b, c])
       \<or> (\<exists>a b c d. es = [a, b, c, d])"
proof -
  assume "length es < 5"
  then consider "length es = 0" | "length es = 1" | "length es = 2" | "length es = 3"
    | "length es = 4"
    by linarith
  then show ?thesis
    by cases (auto simp: length_Suc_conv eval_nat_numeral)
qed

lemma Serialize_read_records:
  assumes five: "length (m_state this) = 5"
    and es: "length es < 5"
    and partial: "length partial < entry_size"
  shows "Serialize_read Entry_ReadFromFile 0 this
       \<lparr>f_mode = m, f_bytes = concat (map entry_bytes es) @ partial\<rparr>
     = (this\<lparr>m_state := es @ replicate (5 - length es) \<lparr>m_id = 0, m_unk0x10 = 0\<rparr>\<rparr>,
        \<lparr>f_mode = m, f_bytes = partial\<rparr>)"
proof -
  from length_5_cases [OF five] obtain s0 s1 s2 s3 s4 where st: "m_state this = [s0, s1, s2, s3, s4]"
    by blast
  note rd = Serialize_read_five [OF st] Entry_ReadFromFile_entry_bytes
    Entry_ReadFromFile_short [OF partial]
  from length_less_5_cases [OF es] show ?thesis
  proof (elim disjE exE)
    assume "es = []"
    then show ?thesis by (simp add: rd st eval_nat_numeral del: Serialize_read.simps)
  next
    fix a assume "es = [a]"
    then show ?thesis by (simp add: rd st eval_nat_numeral del: Serialize_read.simps)
  next
    fix a b assume "es = [a, b]"
    then show ?thesis by (simp add: rd st eval_nat_numeral del: Serialize_read.simps)
  next
    fix a b c assume "es = [a, b, c]"
    then show ?thesis by (simp add: rd st eval_nat_numeral del: Serialize_read.simps)
  next
    fix a b c d assume "es = [a, b, c, d]"
    then show ?thesis by (simp add: rd st eval_nat_numeral del: Serialize_read.simps)
  qed
qed

text \<open>
  C2, as the code has it. \<^verbatim>\<open>PizzaMissionState::Serialize\<close> returns \<^verbatim>\<open>SUCCESS\<close> on every
  input, whatever the base class's call and the entries' functions do: it makes no
  length check of its own and reports no truncation. With the reader of the
  specification, every stream that holds fewer bytes than 5 full records is a number of
  full records followed by less than one record; in read mode the entries of the full
  records are read into the first slots in order, every remaining slot is left zeroed by
  the reader's length check, the stream stops at the partial record, and the result code
  is \<^verbatim>\<open>SUCCESS\<close>.
\<close>

theorem Serialize_truncated_stream:
  assumes five: "length (m_state this) = 5"
    and short: "length bs < 5 * entry_size"
  shows "fst (PizzaMissionState_Serialize base rd wr this p_file) = SUCCESS
    \<and> (\<exists>es partial.
          bs = concat (map entry_bytes es) @ partial
          \<and> length es = length bs div entry_size \<and> length es < 5
          \<and> length partial < entry_size
          \<and> PizzaMissionState_Serialize LegoState_Serialize_spec Entry_ReadFromFile wr this
               \<lparr>f_mode = ReadMode, f_bytes = bs\<rparr>
             = (SUCCESS,
                this\<lparr>m_state := es @ replicate (5 - length es) \<lparr>m_id = 0, m_unk0x10 = 0\<rparr>\<rparr>,
                \<lparr>f_mode = ReadMode, f_bytes = partial\<rparr>))"
proof
  show "fst (PizzaMissionState_Serialize base rd wr this p_file) = SUCCESS"
    by (simp add: PizzaMissionState_Serialize_def Let_def split: prod.splits)
next
  from stream_records [of bs] obtain es partial
    where bs: "bs = concat (map entry_bytes es) @ partial"
      and partial: "length partial < entry_size"
      and n: "length es = length bs div entry_size"
    by blast
  from n short have es: "length es < 5"
    by (simp add: entry_size_def)
  have "PizzaMissionState_Serialize LegoState_Serialize_spec Entry_ReadFromFile wr this
      \<lparr>f_mode = ReadMode, f_bytes = concat (map entry_bytes es) @ partial\<rparr>
    = (SUCCESS,
       this\<lparr>m_state := es @ replicate (5 - length es) \<lparr>m_id = 0, m_unk0x10 = 0\<rparr>\<rparr>,
       \<lparr>f_mode = ReadMode, f_bytes = partial\<rparr>)"
    by (simp add: PizzaMissionState_Serialize_def LegoState_Serialize_spec_def IsReadMode_def
        Serialize_read_records [OF five es partial] del: Serialize_read.simps)
  with bs n es partial show "\<exists>es partial.
          bs = concat (map entry_bytes es) @ partial
          \<and> length es = length bs div entry_size \<and> length es < 5
          \<and> length partial < entry_size
          \<and> PizzaMissionState_Serialize LegoState_Serialize_spec Entry_ReadFromFile wr this
               \<lparr>f_mode = ReadMode, f_bytes = bs\<rparr>
             = (SUCCESS,
                this\<lparr>m_state := es @ replicate (5 - length es) \<lparr>m_id = 0, m_unk0x10 = 0\<rparr>\<rparr>,
                \<lparr>f_mode = ReadMode, f_bytes = partial\<rparr>)"
    by blast
qed

theorem Serialize_truncated_stream_witness:
  "length (m_state example_state) = 5
   \<and> length [9, 1, 0, 0, 0, 4, 4 :: MxU8] < 5 * entry_size
   \<and> [9, 1, 0, 0, 0, 4, 4] = concat (map entry_bytes [\<lparr>m_id = 9, m_unk0x10 = 1\<rparr>]) @ [4, 4]
   \<and> (\<exists>es partial.
         [9, 1, 0, 0, 0, 4, 4] = concat (map entry_bytes es) @ partial
         \<and> length es = 1 \<and> length partial = 2
         \<and> PizzaMissionState_Serialize LegoState_Serialize_spec Entry_ReadFromFile
              Entry_WriteToFile example_state \<lparr>f_mode = ReadMode, f_bytes = [9, 1, 0, 0, 0, 4, 4]\<rparr>
            = (SUCCESS,
               example_state\<lparr>m_state := es @ replicate 4 \<lparr>m_id = 0, m_unk0x10 = 0\<rparr>\<rparr>,
               \<lparr>f_mode = ReadMode, f_bytes = partial\<rparr>))"
proof -
  have five: "length (m_state example_state) = 5"
    by (simp add: example_state_def)
  have short: "length [9, 1, 0, 0, 0, 4, 4 :: MxU8] < 5 * entry_size"
    by (simp add: entry_size_def)
  have form: "[9, 1, 0, 0, 0, 4, 4] = concat (map entry_bytes [\<lparr>m_id = 9, m_unk0x10 = 1\<rparr>]) @ [4, 4]"
    by (simp add: entry_bytes_def put_u32_def)
  from Serialize_truncated_stream [OF five short, THEN conjunct2, of Entry_WriteToFile]
  obtain es partial where bs: "[9, 1, 0, 0, 0, 4, 4] = concat (map entry_bytes es) @ partial"
    and n: "length es = length [9, 1, 0, 0, 0, 4, 4 :: MxU8] div entry_size"
    and p: "length partial < entry_size"
    and run: "PizzaMissionState_Serialize LegoState_Serialize_spec Entry_ReadFromFile
              Entry_WriteToFile example_state \<lparr>f_mode = ReadMode, f_bytes = [9, 1, 0, 0, 0, 4, 4]\<rparr>
            = (SUCCESS,
               example_state\<lparr>m_state := es @ replicate (5 - length es) \<lparr>m_id = 0, m_unk0x10 = 0\<rparr>\<rparr>,
               \<lparr>f_mode = ReadMode, f_bytes = partial\<rparr>)"
    by blast
  from n have n1: "length es = 1"
    by (simp add: entry_size_def)
  from bs have "length [9, 1, 0, 0, 0, 4, 4 :: MxU8] = length (concat (map entry_bytes es) @ partial)"
    by simp
  with n1 have p2: "length partial = 2"
    by (auto simp: length_Suc_conv length_entry_bytes entry_size_def)
  from run n1 have "PizzaMissionState_Serialize LegoState_Serialize_spec Entry_ReadFromFile
              Entry_WriteToFile example_state \<lparr>f_mode = ReadMode, f_bytes = [9, 1, 0, 0, 0, 4, 4]\<rparr>
            = (SUCCESS,
               example_state\<lparr>m_state := es @ replicate 4 \<lparr>m_id = 0, m_unk0x10 = 0\<rparr>\<rparr>,
               \<lparr>f_mode = ReadMode, f_bytes = partial\<rparr>)"
    by simp
  with bs n1 p2 five short form show ?thesis
    by blast
qed


text \<open>
  The claim C2 as stated fails: on a stream of 7 bytes, one full record and two bytes
  more, the first entry is read, the four others are left zeroed, and the result code is
  \<^verbatim>\<open>SUCCESS\<close>, which reports no truncation.
\<close>

theorem Serialize_truncated_counterexample:
  "length [9, 1, 0, 0, 0, 4, 4 :: MxU8] < 5 * entry_size
   \<and> PizzaMissionState_Serialize LegoState_Serialize_spec Entry_ReadFromFile Entry_WriteToFile
        example_state \<lparr>f_mode = ReadMode, f_bytes = [9, 1, 0, 0, 0, 4, 4]\<rparr>
      = (SUCCESS,
         \<lparr>m_unk0x0c = 0,
          m_state = [\<lparr>m_id = 9, m_unk0x10 = 1\<rparr>, \<lparr>m_id = 0, m_unk0x10 = 0\<rparr>,
                     \<lparr>m_id = 0, m_unk0x10 = 0\<rparr>, \<lparr>m_id = 0, m_unk0x10 = 0\<rparr>,
                     \<lparr>m_id = 0, m_unk0x10 = 0\<rparr>]\<rparr>,
         \<lparr>f_mode = ReadMode, f_bytes = [4, 4]\<rparr>)"
  by (simp add: PizzaMissionState_Serialize_def LegoState_Serialize_spec_def IsReadMode_def
      Serialize_read.simps Entry_ReadFromFile_def entry_size_def get_u32_def example_state_def)

section \<open>Facts about Pizza\<close>

text \<open>
  C5. \<^verbatim>\<open>Pizza::CreateState\<close> looks up, then creates. For \<^verbatim>\<open>"PizzaMissionState"\<close> and then
  for \<^verbatim>\<open>"Act1State"\<close> it calls the registry's \<^verbatim>\<open>GetState\<close> first and calls \<^verbatim>\<open>CreateState\<close>
  with the same name exactly when that lookup returned \<^verbatim>\<open>NULL\<close>; these are all its calls,
  in this order. Afterwards \<^verbatim>\<open>m_state\<close> holds the address obtained for
  \<^verbatim>\<open>"PizzaMissionState"\<close> and \<^verbatim>\<open>m_act1state\<close> the one obtained for \<^verbatim>\<open>"Act1State"\<close>, and no
  other member has changed: the actor keeps the registry's addresses, the objects stay
  with the registry. This holds for every registry.
\<close>

theorem Pizza_CreateState_protocol:
  assumes get1: "GameState_GetState K ''PizzaMissionState'' (outside E) = (a1, g1)"
    and cre1: "(if a1 = None then GameState_CreateState K ''PizzaMissionState'' g1 else (a1, g1))
        = (a2, g2)"
    and get2: "GameState_GetState K ''Act1State'' g2 = (a3, g3)"
    and cre2: "(if a3 = None then GameState_CreateState K ''Act1State'' g3 else (a3, g3))
        = (a4, g4)"
  shows "Pizza_CreateState K this E =
     (this\<lparr>Pizza_m_state := a2, m_act1state := a4\<rparr>,
      \<lparr>outside = g4,
       calls = calls E
         @ [Call_GetState ''PizzaMissionState'']
         @ (if a1 = None then [Call_CreateState ''PizzaMissionState''] else [])
         @ [Call_GetState ''Act1State'']
         @ (if a3 = None then [Call_CreateState ''Act1State''] else [])\<rparr>)"
proof -
  show ?thesis
  proof (cases "a1 = None")
    case n1: True
    with cre1 have c1: "GameState_CreateState K ''PizzaMissionState'' g1 = (a2, g2)"
      by simp
    show ?thesis
    proof (cases "a3 = None")
      case n3: True
      with cre2 have c2: "GameState_CreateState K ''Act1State'' g3 = (a4, g4)"
        by simp
      show ?thesis
        using n1 n3 c1 c2 get2 get1
        by (auto simp: Pizza_CreateState_def do_CreateState_def do_GetState_def Let_def)
    next
      case n3: False
      with cre2 have "a4 = a3" "g4 = g3"
        by simp_all
      then show ?thesis
        using n1 n3 c1 get2 get1
        by (auto simp: Pizza_CreateState_def do_CreateState_def do_GetState_def Let_def)
    qed
  next
    case n1: False
    with cre1 have e1: "a2 = a1" "g2 = g1"
      by simp_all
    show ?thesis
    proof (cases "a3 = None")
      case n3: True
      with cre2 have c2: "GameState_CreateState K ''Act1State'' g3 = (a4, g4)"
        by simp
      show ?thesis
        using n1 n3 e1 c2 get2 get1
        by (auto simp: Pizza_CreateState_def do_CreateState_def do_GetState_def Let_def)
    next
      case n3: False
      with cre2 have "a4 = a3" "g4 = g3"
        by simp_all
      then show ?thesis
        using n1 n3 e1 get2 get1
        by (auto simp: Pizza_CreateState_def do_CreateState_def do_GetState_def Let_def)
    qed
  qed
qed



theorem Pizza_CreateState_protocol_witness:
  "GameState_GetState example_collaborators ''PizzaMissionState'' (outside example_env)
     = (None, [(''Act1State'', 0)])
   \<and> GameState_CreateState example_collaborators ''PizzaMissionState'' [(''Act1State'', 0)]
     = (Some 1, [(''Act1State'', 0), (''PizzaMissionState'', 1)])
   \<and> GameState_GetState example_collaborators ''Act1State''
        [(''Act1State'', 0), (''PizzaMissionState'', 1)]
     = (Some 0, [(''Act1State'', 0), (''PizzaMissionState'', 1)])
   \<and> Pizza_CreateState example_collaborators example_Pizza example_env
     = (example_Pizza\<lparr>Pizza_m_state := Some 1, m_act1state := Some 0\<rparr>,
        \<lparr>outside = [(''Act1State'', 0), (''PizzaMissionState'', 1)],
         calls = [Call_GetState ''PizzaMissionState'', Call_CreateState ''PizzaMissionState'',
                  Call_GetState ''Act1State'']\<rparr>)"
proof -
  have get1: "GameState_GetState example_collaborators ''PizzaMissionState'' (outside example_env)
      = (None, [(''Act1State'', 0)])"
    by (simp add: example_collaborators_def example_env_def registry_GetState_def)
  have cre: "GameState_CreateState example_collaborators ''PizzaMissionState'' [(''Act1State'', 0)]
      = (Some 1, [(''Act1State'', 0), (''PizzaMissionState'', 1)])"
    by (simp add: example_collaborators_def registry_CreateState_def)
  then have cre1: "(if (None :: addr option) = None
        then GameState_CreateState example_collaborators ''PizzaMissionState'' [(''Act1State'', 0)]
        else (None, [(''Act1State'', 0)]))
      = (Some 1, [(''Act1State'', 0), (''PizzaMissionState'', 1)])"
    by simp
  have get2: "GameState_GetState example_collaborators ''Act1State''
        [(''Act1State'', 0), (''PizzaMissionState'', 1)]
      = (Some 0, [(''Act1State'', 0), (''PizzaMissionState'', 1)])"
    by (simp add: example_collaborators_def registry_GetState_def)
  have cre2: "(if Some (0 :: addr) = None
        then GameState_CreateState example_collaborators ''Act1State''
          [(''Act1State'', 0), (''PizzaMissionState'', 1)]
        else (Some 0, [(''Act1State'', 0), (''PizzaMissionState'', 1)]))
      = (Some 0, [(''Act1State'', 0), (''PizzaMissionState'', 1)])"
    by simp
  from Pizza_CreateState_protocol [OF get1 cre1 get2 cre2, of example_Pizza] get1 cre get2
  show ?thesis
    by (simp add: example_env_def)
qed





text \<open>
  C8. \<^verbatim>\<open>Pizza::HandleClick\<close>, \<^verbatim>\<open>Pizza::HandlePathStruct\<close> and \<^verbatim>\<open>Pizza::HandleEndAction\<close> return 0
  on every input and leave the actor and everything outside it as they were.
\<close>

theorem Pizza_stub_handlers:
  "Pizza_HandleClick this E = (0, this, E)
   \<and> Pizza_HandlePathStruct p_path this E = (0, this, E)
   \<and> Pizza_HandleEndAction p_end this E = (0, this, E)"
  by (simp add: Pizza_HandleClick_def Pizza_HandlePathStruct_def Pizza_HandleEndAction_def)


section \<open>Facts about the tickle manager\<close>

declare Tickle_from.simps [simp del]

lemma removeAll_nth_distinct:
  assumes "distinct tm" and "i < length tm"
  shows "removeAll (tm ! i) tm = take i tm @ drop (Suc i) tm"
proof -
  from assms(2) have split: "tm = take i tm @ tm ! i # drop (Suc i) tm"
    by (rule id_take_nth_drop)
  with assms(1) have "distinct (take i tm @ tm ! i # drop (Suc i) tm)"
    by simp
  then have "tm ! i \<notin> set (take i tm)" and "tm ! i \<notin> set (drop (Suc i) tm)"
    by auto
  then have "removeAll (tm ! i) (take i tm @ tm ! i # drop (Suc i) tm)
      = take i tm @ drop (Suc i) tm"
    by simp
  with split show ?thesis
    by simp
qed

lemma Tickle_from_distinct:
  "distinct tm \<Longrightarrow> i \<le> length tm \<Longrightarrow>
     Tickle_from hook i tm ticked =
       (take i tm @ filter (\<lambda>c. hook c = StayRegistered) (drop i tm), ticked @ drop i tm)"
proof (induction hook i tm ticked rule: Tickle_from.induct)
  case (1 hook i tm ticked)
  show ?case
  proof (cases "i < length tm")
    case False
    then have "Tickle_from hook i tm ticked = (tm, ticked)"
      by (simp add: Tickle_from.simps [of hook i tm ticked] Let_def)
    with False "1.prems" show ?thesis
      by simp
  next
    case True
    then have drop_i: "drop i tm = tm ! i # drop (Suc i) tm"
      by (simp add: Cons_nth_drop_Suc)
    from True have take_Suc: "take (Suc i) tm = take i tm @ [tm ! i]"
      by (simp add: take_Suc_conv_app_nth)
    show ?thesis
    proof (cases "hook (tm ! i)")
      case StayRegistered
      from "1.IH"(1) [OF True refl StayRegistered "1.prems"(1)] True
      have "Tickle_from hook (i + 1) tm (ticked @ [tm ! i]) =
          (take (i + 1) tm @ filter (\<lambda>c. hook c = StayRegistered) (drop (i + 1) tm),
           (ticked @ [tm ! i]) @ drop (i + 1) tm)"
        by simp
      with True StayRegistered drop_i take_Suc show ?thesis
        by (simp add: Tickle_from.simps [of hook i tm ticked] Let_def)
    next
      case UnregisterSelf
      let ?tm' = "UnregisterClient (tm ! i) tm"
      from "1.prems"(1) True have tm': "?tm' = take i tm @ drop (Suc i) tm"
        by (simp add: UnregisterClient_def removeAll_nth_distinct)
      from "1.prems"(1) have d: "distinct ?tm'"
        by (simp add: UnregisterClient_def distinct_removeAll)
      from tm' True have len: "i \<le> length ?tm'"
        by simp
      from tm' True have tk: "take i ?tm' = take i tm" and dr: "drop i ?tm' = drop (Suc i) tm"
        by simp_all
      from "1.IH"(2) [OF True refl UnregisterSelf d len]
      have "Tickle_from hook i ?tm' (ticked @ [tm ! i]) =
          (take i tm @ filter (\<lambda>c. hook c = StayRegistered) (drop (Suc i) tm),
           (ticked @ [tm ! i]) @ drop (Suc i) tm)"
        by (simp only: tk dr)
      with True UnregisterSelf drop_i show ?thesis
        by (simp add: Tickle_from.simps [of hook i tm ticked] Let_def)
    qed
  qed
qed

lemma TickleAll_distinct:
  "distinct tm \<Longrightarrow> TickleAll hook tm = (filter (\<lambda>c. hook c = StayRegistered) tm, tm)"
  by (simp add: TickleAll_def Tickle_from_distinct)

lemma run_ops_append:
  "run_ops (xs @ ys) tm acc = (case run_ops xs tm acc of (tm1, acc1) \<Rightarrow> run_ops ys tm1 acc1)"
  by (induction xs tm acc rule: run_ops.induct) (auto split: prod.splits)

lemma run_ops_records:
  "run_ops xs tm acc = (tm1, acc1) \<Longrightarrow>
     \<exists>more. acc1 = acc @ more \<and> length more = length (filter is_pass xs)"
proof (induction xs tm acc rule: run_ops.induct)
  case (1 tm passes)
  then show ?case by simp
next
  case (2 client ops tm passes)
  then show ?case by (simp add: is_pass_def)
next
  case (3 client ops tm passes)
  then show ?case by (simp add: is_pass_def)
next
  case (4 hook ops tm passes)
  obtain tm' ticked where pass: "TickleAll hook tm = (tm', ticked)"
    by (cases "TickleAll hook tm")
  with "4.prems" have "run_ops ops tm' (passes @ [(tm, ticked)]) = (tm1, acc1)"
    by simp
  from "4.IH" [OF pass [symmetric] this] obtain more
    where "acc1 = (passes @ [(tm, ticked)]) @ more" and "length more = length (filter is_pass ops)"
    by blast
  then have "acc1 = passes @ ((tm, ticked) # more)
      \<and> length ((tm, ticked) # more) = length (filter is_pass (Pass hook # ops))"
    by (simp add: is_pass_def)
  then show ?case by blast
qed

lemma reaction_not_UnregisterSelf: "(r \<noteq> UnregisterSelf) = (r = StayRegistered)"
  by (cases r) simp_all

lemma run_ops_registered:
  "run_ops pre [] [] = (tm, acc) \<Longrightarrow>
     distinct tm
     \<and> (\<forall>c. (c \<in> set tm) = (registered_at (rev pre) c \<noteq> None))
     \<and> sorted_wrt (\<lambda>a b. the (registered_at (rev pre) a) < the (registered_at (rev pre) b)) tm
     \<and> (\<forall>c \<in> set tm. the (registered_at (rev pre) c) < length pre)"
proof (induction pre arbitrary: tm acc rule: rev_induct)
  case Nil
  then show ?case by simp
next
  case (snoc op pre)
  obtain tm0 acc0 where run0: "run_ops pre [] [] = (tm0, acc0)"
    by (cases "run_ops pre [] []")
  from snoc.IH [OF run0]
  have d: "distinct tm0"
    and mem: "\<And>c. (c \<in> set tm0) = (registered_at (rev pre) c \<noteq> None)"
    and srt: "sorted_wrt (\<lambda>a b. the (registered_at (rev pre) a) < the (registered_at (rev pre) b)) tm0"
    and bnd: "\<And>c. c \<in> set tm0 \<Longrightarrow> the (registered_at (rev pre) c) < length pre"
    by auto
  from snoc.prems run0 have step: "run_ops [op] tm0 acc0 = (tm, acc)"
    by (simp add: run_ops_append)
  show ?case
  proof (cases op)
    case (Register client)
    show ?thesis
    proof (cases "client \<in> set tm0")
      case True
      with step Register have tm: "tm = tm0"
        by (simp add: RegisterClient_def)
      from True mem have same: "\<And>c. registered_at (rev (pre @ [op])) c = registered_at (rev pre) c"
        by (auto simp: Register)
      from d mem srt bnd show ?thesis
        unfolding tm same by (auto intro: less_SucI)
    next
      case False
      with step Register have tm: "tm = tm0 @ [client]"
        by (simp add: RegisterClient_def)
      from False mem have new: "registered_at (rev (pre @ [op])) client = Some (length pre)"
        by (simp add: Register)
      have old: "registered_at (rev (pre @ [op])) c = registered_at (rev pre) c" if "c \<noteq> client" for c
        using that by (simp add: Register)
      have old_tm: "registered_at (rev (pre @ [op])) c = registered_at (rev pre) c"
        if "c \<in> set tm0" for c
        using that False old [of c] by auto
      have 1: "distinct tm"
        using d False by (simp add: tm)
      have 2: "\<forall>c. (c \<in> set tm) = (registered_at (rev (pre @ [op])) c \<noteq> None)"
      proof
        fix c
        show "(c \<in> set tm) = (registered_at (rev (pre @ [op])) c \<noteq> None)"
          using mem [of c] new old [of c] by (cases "c = client") (simp_all add: tm)
      qed
      have srt0: "sorted_wrt (\<lambda>a b. the (registered_at (rev (pre @ [op])) a)
          < the (registered_at (rev (pre @ [op])) b)) tm0"
        by (rule sorted_wrt_mono_rel [OF _ srt]) (simp only: old_tm)
      have 4: "\<forall>c \<in> set tm. the (registered_at (rev (pre @ [op])) c) < length (pre @ [op])"
        using bnd old_tm new by (auto simp: tm intro: less_SucI)
      have 3: "sorted_wrt (\<lambda>a b. the (registered_at (rev (pre @ [op])) a)
          < the (registered_at (rev (pre @ [op])) b)) tm"
        using srt0 bnd old_tm new by (simp add: tm sorted_wrt_append)
      from 1 2 3 4 show ?thesis
        by blast
    qed
  next
    case (Unregister client)
    with step have tm: "tm = removeAll client tm0"
      by (simp add: UnregisterClient_def)
    have old_tm: "\<And>c. c \<in> set tm \<Longrightarrow> registered_at (rev (pre @ [op])) c = registered_at (rev pre) c"
      by (auto simp: Unregister tm)
    have 1: "distinct tm"
      using d by (simp add: tm distinct_removeAll)
    have 2: "\<forall>c. (c \<in> set tm) = (registered_at (rev (pre @ [op])) c \<noteq> None)"
      using mem by (auto simp: Unregister tm)
    have s0: "sorted_wrt (\<lambda>a b. the (registered_at (rev pre) a) < the (registered_at (rev pre) b)) tm"
      using srt by (simp add: tm removeAll_filter_not_eq sorted_wrt_filter)
    have 3: "sorted_wrt (\<lambda>a b. the (registered_at (rev (pre @ [op])) a)
          < the (registered_at (rev (pre @ [op])) b)) tm"
      by (rule sorted_wrt_mono_rel [OF _ s0]) (simp only: old_tm)
    have 4: "\<forall>c \<in> set tm. the (registered_at (rev (pre @ [op])) c) < length (pre @ [op])"
      using bnd old_tm by (auto simp: tm intro: less_SucI)
    from 1 2 3 4 show ?thesis
      by blast
  next
    case (Pass hook)
    with step d have tm: "tm = filter (\<lambda>c. hook c = StayRegistered) tm0"
      by (simp add: TickleAll_distinct)
    have old_tm: "\<And>c. c \<in> set tm \<Longrightarrow> registered_at (rev (pre @ [op])) c = registered_at (rev pre) c"
      by (auto simp: Pass tm)
    have 1: "distinct tm"
      using d by (simp add: tm)
    have 2: "\<forall>c. (c \<in> set tm) = (registered_at (rev (pre @ [op])) c \<noteq> None)"
      using mem by (auto simp: Pass tm reaction_not_UnregisterSelf)
    have s0: "sorted_wrt (\<lambda>a b. the (registered_at (rev pre) a) < the (registered_at (rev pre) b)) tm"
      using srt by (simp add: tm sorted_wrt_filter)
    have 3: "sorted_wrt (\<lambda>a b. the (registered_at (rev (pre @ [op])) a)
          < the (registered_at (rev (pre @ [op])) b)) tm"
      by (rule sorted_wrt_mono_rel [OF _ s0]) (simp only: old_tm)
    have 4: "\<forall>c \<in> set tm. the (registered_at (rev (pre @ [op])) c) < length (pre @ [op])"
      using bnd old_tm by (auto simp: tm intro: less_SucI)
    from 1 2 3 4 show ?thesis
      by blast
  qed
qed


text \<open>
  C4. Take any session that starts with no client and any pass in it: \<open>pre\<close> are the
  calls before the pass, \<open>post\<close> the calls after it. The pass calls the update hook of
  exactly the clients that are registered after \<open>pre\<close> according to the history, each
  of them once, in the order of the calls that registered them. This holds whatever the
  hooks do to their own registration: a client that unregisters itself inside its hook
  makes the pass neither skip nor repeat another client, and the pass leaves exactly the
  clients that stayed, in the same order. The record of the pass is the same whatever
  follows it.
\<close>

theorem TickleAll_each_client_once:
  assumes run: "run_ops (pre @ Pass hook # post) [] [] = (tm_end, passes)"
  shows "length (filter is_pass pre) < length passes
    \<and> (case passes ! length (filter is_pass pre) of
         (registered, ticked) \<Rightarrow>
           ticked = registered \<and> distinct ticked
           \<and> (\<forall>c. (c \<in> set ticked) = (registered_at (rev pre) c \<noteq> None))
           \<and> sorted_wrt (\<lambda>a b. the (registered_at (rev pre) a) < the (registered_at (rev pre) b))
                ticked
           \<and> TickleAll hook registered
               = (filter (\<lambda>c. hook c = StayRegistered) registered, ticked))"
proof -
  obtain tm acc where run0: "run_ops pre [] [] = (tm, acc)"
    by (cases "run_ops pre [] []")
  from run_ops_records [OF run0] have n: "length acc = length (filter is_pass pre)"
    by auto
  from run_ops_registered [OF run0]
  have d: "distinct tm"
    and mem: "\<forall>c. (c \<in> set tm) = (registered_at (rev pre) c \<noteq> None)"
    and srt: "sorted_wrt (\<lambda>a b. the (registered_at (rev pre) a) < the (registered_at (rev pre) b)) tm"
    by blast+
  from d have pass: "TickleAll hook tm = (filter (\<lambda>c. hook c = StayRegistered) tm, tm)"
    by (rule TickleAll_distinct)
  from run run0 pass
  have "run_ops post (filter (\<lambda>c. hook c = StayRegistered) tm) (acc @ [(tm, tm)]) = (tm_end, passes)"
    by (simp add: run_ops_append)
  from run_ops_records [OF this] obtain more where "passes = (acc @ [(tm, tm)]) @ more"
    by blast
  with n have "length (filter is_pass pre) < length passes"
    and "passes ! length (filter is_pass pre) = (tm, tm)"
    by (simp_all add: nth_append)
  with d mem srt pass show ?thesis
    by simp
qed

theorem TickleAll_each_client_once_witness:
  "run_ops ([Register 1, Register 2, Register 1, Register 3]
            @ Pass (\<lambda>c. if c = 2 then UnregisterSelf else StayRegistered)
            # [Unregister 1, Register 4, Pass (\<lambda>c. StayRegistered)]) [] []
     = ([3, 4], [([1, 2, 3], [1, 2, 3]), ([3, 4], [3, 4])])
   \<and> length (filter is_pass [Register 1, Register 2, Register 1, Register 3]) = 0
   \<and> registered_at (rev [Register 1, Register 2, Register 1, Register 3]) 1 = Some 0
   \<and> registered_at (rev [Register 1, Register 2, Register 1, Register 3]) 2 = Some 1
   \<and> registered_at (rev [Register 1, Register 2, Register 1, Register 3]) 3 = Some 3
   \<and> registered_at (rev [Register 1, Register 2, Register 1, Register 3]) 4 = None
   \<and> TickleAll (\<lambda>c. if c = 2 then UnregisterSelf else StayRegistered) [1, 2, 3]
     = ([1, 3], [1, 2, 3])"
proof -
  have run: "run_ops ([Register 1, Register 2, Register 1, Register 3]
            @ Pass (\<lambda>c. if c = 2 then UnregisterSelf else StayRegistered)
            # [Unregister 1, Register 4, Pass (\<lambda>c. StayRegistered)]) [] []
     = ([3, 4], [([1, 2, 3], [1, 2, 3]), ([3, 4], [3, 4])])"
    by (simp add: UnregisterClient_def RegisterClient_def TickleAll_def Tickle_from.simps)
  have n: "length (filter is_pass [Register 1, Register 2, Register 1, Register 3]) = 0"
    by (simp add: is_pass_def)
  have reg: "registered_at (rev [Register 1, Register 2, Register 1, Register 3]) 1 = Some 0"
    "registered_at (rev [Register 1, Register 2, Register 1, Register 3]) 2 = Some 1"
    "registered_at (rev [Register 1, Register 2, Register 1, Register 3]) 3 = Some 3"
    "registered_at (rev [Register 1, Register 2, Register 1, Register 3]) 4 = None"
    by simp_all
  from TickleAll_each_client_once [OF run, THEN conjunct2]
  have "TickleAll (\<lambda>c. if c = 2 then UnregisterSelf else StayRegistered) [1, 2, 3]
     = ([1, 3], [1, 2, 3])"
    unfolding n by simp
  with run n reg show ?thesis
    by simp
qed


lemma Tickle_from_subset:
  "Tickle_from hook i tm ticked = (tm', ticked') \<Longrightarrow>
     set tm' \<subseteq> set tm \<and> set ticked' \<subseteq> set ticked \<union> set tm"
proof (induction hook i tm ticked arbitrary: tm' ticked' rule: Tickle_from.induct)
  case (1 hook i tm ticked)
  show ?case
  proof (cases "i < length tm")
    case False
    with "1.prems" show ?thesis
      by (simp add: Tickle_from.simps [of hook i tm ticked])
  next
    case True
    then have mem: "tm ! i \<in> set tm"
      by simp
    show ?thesis
    proof (cases "hook (tm ! i)")
      case StayRegistered
      with True "1.prems"
      have "Tickle_from hook (i + 1) tm (ticked @ [tm ! i]) = (tm', ticked')"
        by (simp add: Tickle_from.simps [of hook i tm ticked] Let_def)
      from "1.IH"(1) [OF True refl StayRegistered this] mem show ?thesis
        by auto
    next
      case UnregisterSelf
      with True "1.prems"
      have "Tickle_from hook i (UnregisterClient (tm ! i) tm) (ticked @ [tm ! i]) = (tm', ticked')"
        by (simp add: Tickle_from.simps [of hook i tm ticked] Let_def)
      from "1.IH"(2) [OF True refl UnregisterSelf this] mem show ?thesis
        by (auto simp: UnregisterClient_def)
    qed
  qed
qed

lemma run_ops_absent:
  "run_ops ops tm passes = (tm', passes') \<Longrightarrow> c \<notin> set tm \<Longrightarrow> Register c \<notin> set ops \<Longrightarrow>
     (\<forall>p \<in> set passes. c \<notin> set (fst p) \<and> c \<notin> set (snd p)) \<Longrightarrow>
     c \<notin> set tm' \<and> (\<forall>p \<in> set passes'. c \<notin> set (fst p) \<and> c \<notin> set (snd p))"
proof (induction ops tm passes rule: run_ops.induct)
  case (1 tm passes)
  then show ?case by simp
next
  case (2 client ops tm passes)
  then show ?case by (simp add: RegisterClient_def)
next
  case (3 client ops tm passes)
  then show ?case by (simp add: UnregisterClient_def)
next
  case (4 hook ops tm passes)
  obtain tm1 ticked where pass: "TickleAll hook tm = (tm1, ticked)"
    by (cases "TickleAll hook tm")
  then have sub: "set tm1 \<subseteq> set tm" "set ticked \<subseteq> set tm"
    using Tickle_from_subset [of hook 0 tm "[]" tm1 ticked] by (simp_all add: TickleAll_def)
  from pass "4.prems"(1) have run: "run_ops ops tm1 (passes @ [(tm, ticked)]) = (tm', passes')"
    by simp
  from sub "4.prems"(2) have c: "c \<notin> set tm1" "c \<notin> set ticked"
    by auto
  with "4.prems"(2,4)
  have "\<forall>p \<in> set (passes @ [(tm, ticked)]). c \<notin> set (fst p) \<and> c \<notin> set (snd p)"
    by simp
  with "4.IH" [OF pass [symmetric] run c(1)] "4.prems"(3) show ?case
    by simp
qed

text \<open>
  C10. The destructor of \<^verbatim>\<open>Pizza\<close> unregisters the actor from the tickle manager, whether
  or not it was registered, and touches no other client. As long as the address is not
  registered again, no later pass of the scheduler finds it among the registered clients
  or calls its hook.
\<close>

theorem Pizza_destructor_unregisters:
  assumes "Register this \<notin> set ops"
    and "run_ops ops (Pizza_destructor this tm) [] = (tm', passes)"
  shows "this \<notin> set (Pizza_destructor this tm)
    \<and> set (Pizza_destructor this tm) = set tm - {this}
    \<and> this \<notin> set tm'
    \<and> (\<forall>p \<in> set passes. this \<notin> set (fst p) \<and> this \<notin> set (snd p))"
proof -
  have gone: "this \<notin> set (Pizza_destructor this tm)"
    by (simp add: Pizza_destructor_def UnregisterClient_def)
  have others: "set (Pizza_destructor this tm) = set tm - {this}"
    by (simp add: Pizza_destructor_def UnregisterClient_def)
  from run_ops_absent [OF assms(2) gone assms(1)] gone others show ?thesis
    by simp
qed

theorem Pizza_destructor_unregisters_witness:
  "Register 3 \<notin> set [Register 5, Pass (\<lambda>c. StayRegistered)]
   \<and> Pizza_destructor 3 [1, 3, 2] = [1, 2]
   \<and> Pizza_destructor 3 [1, 2] = [1, 2]
   \<and> run_ops [Register 5, Pass (\<lambda>c. StayRegistered)] (Pizza_destructor 3 [1, 3, 2]) []
      = ([1, 2, 5], [([1, 2, 5], [1, 2, 5])])
   \<and> 3 \<notin> set [1, 2, 5 :: addr]"
proof -
  have ops: "Register 3 \<notin> set [Register 5, Pass (\<lambda>c. StayRegistered)]"
    by simp
  have run: "run_ops [Register 5, Pass (\<lambda>c. StayRegistered)] (Pizza_destructor 3 [1, 3, 2]) []
      = ([1, 2, 5], [([1, 2, 5], [1, 2, 5])])"
    by (simp add: Pizza_destructor_def UnregisterClient_def RegisterClient_def TickleAll_def
        Tickle_from.simps)
  from Pizza_destructor_unregisters [OF ops run] ops run show ?thesis
    by (simp add: Pizza_destructor_def UnregisterClient_def)
qed

end
